theory Spec2Isabelle
  imports Main
begin

section \<open>Exceptions\<close>

text \<open>
  Python exceptions as values.  The only distinction the program depends on is the one
  its handlers make: \<^verbatim>\<open>except Exception:\<close> (main.py, line 111) catches instances of
  \<^verbatim>\<open>Exception\<close> only, the bare \<^verbatim>\<open>except:\<close> (task.py, line 96) catches everything.
  \<open>Exc name\<close> is an instance of the \<^verbatim>\<open>Exception\<close> subclass \<open>name\<close>; the other
  constructors are the built-in classes that derive from \<^verbatim>\<open>BaseException\<close> directly.
\<close>

datatype py_exc = Exc string | KeyboardInterrupt | SystemExit | GeneratorExit

fun is_Exception :: "py_exc \<Rightarrow> bool" where
  "is_Exception (Exc n) = True"
| "is_Exception KeyboardInterrupt = False"
| "is_Exception SystemExit = False"
| "is_Exception GeneratorExit = False"

section \<open>Python string operations used by task.py\<close>

text \<open>
  Strings are character lists.  The functions below are the operations of \<^verbatim>\<open>str\<close> that
  \<^verbatim>\<open>Task.extract_blocking_info\<close> calls, with Python's conventions written out:
  \<^verbatim>\<open>find\<close> answers \<open>-1\<close> when there is no match, a negative slice bound counts from the
  end, and both slice bounds are clamped to the string.  A character is a code point
  below 256.
\<close>

definition backslash :: char where
  "backslash = CHR 0x5C"

definition carriage_return :: char where
  "carriage_return = CHR 0x0D"

text \<open>\<^verbatim>\<open>str.isspace\<close>, which decides what \<^verbatim>\<open>strip\<close> removes: the ASCII white space, the next
  line character U+0085 and the no-break space U+00A0.\<close>

definition is_space :: "char \<Rightarrow> bool" where
  "is_space c = (c \<in> set [CHR 0x09, CHR 0x0A, CHR 0x0B, CHR 0x0C, CHR 0x0D,
                           CHR 0x1C, CHR 0x1D, CHR 0x1E, CHR 0x1F, CHR 0x20,
                           CHR 0x85, CHR 0xA0])"

text \<open>\<^verbatim>\<open>str.lower\<close> on one character: the capitals are A to Z, U+00C0 to U+00D6 and U+00D8
  to U+00DE, and the small letter lies 32 code points above its capital.\<close>

definition lower_chr :: "char \<Rightarrow> char" where
  "lower_chr c =
     (let n = (of_char c :: nat)
      in if (65 \<le> n \<and> n \<le> 90) \<or> (192 \<le> n \<and> n \<le> 214) \<or> (216 \<le> n \<and> n \<le> 222)
         then char_of (n + 32)
         else c)"

definition py_lower :: "string \<Rightarrow> string" where
  "py_lower s = map lower_chr s"

definition py_strip :: "string \<Rightarrow> string" where
  "py_strip s = rev (dropWhile is_space (rev (dropWhile is_space s)))"

text \<open>\<open>first_match sub s\<close>: the least offset at which \<open>sub\<close> occurs in \<open>s\<close>.\<close>

fun first_match :: "string \<Rightarrow> string \<Rightarrow> nat option" where
  "first_match sub [] = (if sub = [] then Some 0 else None)"
| "first_match sub (c # cs) =
     (if take (length sub) (c # cs) = sub then Some 0
      else map_option Suc (first_match sub cs))"

text \<open>\<^verbatim>\<open>s.find(sub, start)\<close>; \<^verbatim>\<open>s.find(sub)\<close> is \<open>py_find s sub 0\<close>.\<close>

definition py_find :: "string \<Rightarrow> string \<Rightarrow> int \<Rightarrow> int" where
  "py_find s sub start =
     (let n = int (length s);
          st = (if start < 0 then max 0 (start + n) else start)
      in if n < st then - 1
         else (case first_match sub (drop (nat st) s) of
                 None \<Rightarrow> - 1
               | Some i \<Rightarrow> st + int i))"

definition slice_bound :: "nat \<Rightarrow> int \<Rightarrow> nat" where
  "slice_bound n i = (if i < 0 then nat (max 0 (i + int n)) else min n (nat i))"

text \<open>\<^verbatim>\<open>s[lo:hi]\<close>.\<close>

definition py_slice :: "string \<Rightarrow> int \<Rightarrow> int \<Rightarrow> string" where
  "py_slice s lo hi = drop (slice_bound (length s) lo) (take (slice_bound (length s) hi) s)"

text \<open>
  \<^verbatim>\<open>s.replace(old, new)\<close>: every non-overlapping occurrence, from the left.  Every call
  in the program passes a non-empty constant for \<open>old\<close>; for an empty \<open>old\<close> (where
  Python interleaves \<open>new\<close>) the string is returned as it is.
\<close>

function py_replace :: "string \<Rightarrow> string \<Rightarrow> string \<Rightarrow> string" where
  "py_replace [] old new = []"
| "py_replace (c # cs) old new =
     (if old \<noteq> [] \<and> take (length old) (c # cs) = old
      then new @ py_replace (drop (length old) (c # cs)) old new
      else c # py_replace cs old new)"
  by pat_completeness auto
termination
  by (relation "measure (\<lambda>(s, old, new). length s)") (auto simp: neq_Nil_conv)

text \<open>\<^verbatim>\<open>s.split(",")\<close>: the result always has at least one element.\<close>

fun split_commas :: "string \<Rightarrow> string list" where
  "split_commas [] = [[]]"
| "split_commas (c # cs) =
     (if c = CHR '','' then [] # split_commas cs
      else (case split_commas cs of
              [] \<Rightarrow> [[c]]
            | w # ws \<Rightarrow> (c # w) # ws))"

section \<open>task.py: the blocking directive of a task\<close>

record Blocked_Info =
  block_apps :: "string list"
  block_websites :: "string list"

definition no_blocking :: Blocked_Info where
  "no_blocking = \<lparr>block_apps = [], block_websites = []\<rparr>"

definition marker :: string where
  "marker = ''##blocking''"

definition apps_key :: string where
  "apps_key = ''block_apps:''"

definition websites_key :: string where
  "websites_key = ''block_websites:''"

text \<open>
  \<^verbatim>\<open>Task._clean_description\<close>.  \<^verbatim>\<open>BeautifulSoup(text, "html.parser").get_text()\<close> is
  a library call; it is the parameter \<open>get_text\<close>, which may raise.
\<close>

definition clean_description :: "(string \<Rightarrow> py_exc + string) \<Rightarrow> string \<Rightarrow> py_exc + string" where
  "clean_description get_text text =
     (case get_text text of
        Inl e \<Rightarrow> Inl e
      | Inr t \<Rightarrow>
          Inr (py_replace
                (py_replace
                  (py_replace
                    (py_replace t ''<br>'' [backslash, CHR ''n''])
                    [carriage_return] [])
                  [backslash, CHR ''n''] '' '')
                [backslash] '' ''))"

text \<open>The text between the two markers (task.py, lines 54 to 58).\<close>

definition important_part :: "string \<Rightarrow> string" where
  "important_part desc =
     (let begin_index = py_find desc marker 0;
          end_index = py_find desc marker (begin_index + 1)
      in py_strip (py_replace (py_slice desc begin_index end_index) marker []))"

text \<open>\<^verbatim>\<open>[string.strip().lower() for string in value.split(",")]\<close>.\<close>

definition tokens :: "string \<Rightarrow> string list" where
  "tokens v = map (\<lambda>w. py_lower (py_strip w)) (split_commas v)"

text \<open>Lines 63 to 75: the apps value ends at the first semicolon of the block.\<close>

definition desc_block_apps :: "string \<Rightarrow> string" where
  "desc_block_apps part =
     py_strip
       (py_replace
         (py_replace (py_slice part (py_find part apps_key 0) (py_find part '';'' 0)) apps_key [])
         '';'' [])"

text \<open>Lines 78 to 89: the websites value ends at the first semicolon after its key.\<close>

definition desc_block_websites :: "string \<Rightarrow> string" where
  "desc_block_websites part =
     (let first_index = py_find part websites_key 0
      in py_strip
           (py_replace
             (py_replace (py_slice part first_index (py_find part '';'' first_index))
                websites_key [])
             '';'' []))"

text \<open>The body of the \<^verbatim>\<open>try\<close> block: \<open>Inl\<close> is an exception raised inside it.\<close>

definition extract_body :: "(string \<Rightarrow> py_exc + string) \<Rightarrow> string \<Rightarrow> py_exc + Blocked_Info" where
  "extract_body get_text desc =
     (case clean_description get_text desc of
        Inl e \<Rightarrow> Inl e
      | Inr cleaned \<Rightarrow>
          (let part = important_part (py_lower cleaned)
           in if part = [] then Inl (Exc ''ValueError'')
              else Inr \<lparr>block_apps = tokens (desc_block_apps part),
                        block_websites = tokens (desc_block_websites part)\<rparr>))"

text \<open>\<^verbatim>\<open>Task.extract_blocking_info\<close>: the bare \<^verbatim>\<open>except:\<close> turns every exception into the
  empty directive.\<close>

definition extract_blocking_info :: "(string \<Rightarrow> py_exc + string) \<Rightarrow> string \<Rightarrow> Blocked_Info" where
  "extract_blocking_info get_text desc =
     (case extract_body get_text desc of
        Inl e \<Rightarrow> no_blocking
      | Inr info \<Rightarrow> info)"

text \<open>A description without markup: \<^verbatim>\<open>get_text\<close> returns it as it is.\<close>

definition plain_text :: "string \<Rightarrow> py_exc + string" where
  "plain_text t = Inr t"

section \<open>task.py: tasks\<close>

text \<open>
  The constructor stores \<^verbatim>\<open>start_time.astimezone(TZ_INFO)\<close> and
  \<^verbatim>\<open>end_time.astimezone(TZ_INFO)\<close>: the same instants, shown in the zone \<^verbatim>\<open>TZ_INFO\<close>.  A
  task holds these instants, as integer counts of microseconds; \<open>new_Task\<close> takes them
  converted.
\<close>

record Task =
  title :: string
  start_time :: int
  end_time :: int
  description :: string
  repetition :: "string option"
  blocking_info :: Blocked_Info

text \<open>\<^verbatim>\<open>Task.__init__\<close>.\<close>

definition new_Task ::
  "(string \<Rightarrow> py_exc + string) \<Rightarrow> string \<Rightarrow> int \<Rightarrow> int \<Rightarrow> string \<Rightarrow> string option \<Rightarrow> Task" where
  "new_Task get_text ttl start_t end_t desc rep =
     \<lparr>title = ttl, start_time = start_t, end_time = end_t, description = desc,
      repetition = rep, blocking_info = extract_blocking_info get_text desc\<rparr>"

definition does_block_anything :: "Task \<Rightarrow> bool" where
  "does_block_anything t =
     (if block_apps (blocking_info t) \<noteq> [] \<and> block_websites (blocking_info t) \<noteq> []
      then True else False)"

text \<open>The comparison of \<^verbatim>\<open>Task.is_active\<close>, at the instant the clock returned.\<close>

definition in_window :: "Task \<Rightarrow> int \<Rightarrow> bool" where
  "in_window t now_t = (start_time t \<le> now_t \<and> now_t \<le> end_time t)"

text \<open>
  \<^verbatim>\<open>Task\<close> defines neither \<^verbatim>\<open>__eq__\<close> nor \<^verbatim>\<open>__ne__\<close>, so \<^verbatim>\<open>==\<close> and \<^verbatim>\<open>!=\<close> on tasks are
  those of \<^verbatim>\<open>object\<close>: identity.  An object is modelled as its identity paired with its
  fields (which are never assigned after construction); the identity of a task of the
  registry is its position in the list, since \<^verbatim>\<open>get_tasks\<close> constructs one new object
  for each element it appends.
\<close>

type_synonym task_obj = "nat \<times> Task"

definition same_object :: "task_obj \<Rightarrow> task_obj \<Rightarrow> bool" where
  "same_object a b = (fst a = fst b)"

text \<open>\<^verbatim>\<open>active_task != current_task\<close>, where \<^verbatim>\<open>current_task\<close> may be \<^verbatim>\<open>None\<close>.\<close>

definition differs_from :: "task_obj \<Rightarrow> task_obj option \<Rightarrow> bool" where
  "differs_from a cur = (case cur of None \<Rightarrow> True | Some c \<Rightarrow> \<not> same_object a c)"

definition registry :: "Task list \<Rightarrow> task_obj list" where
  "registry ts = enumerate 0 ts"

definition websites_of :: "task_obj \<Rightarrow> string list" where
  "websites_of t = block_websites (blocking_info (snd t))"

definition apps_of :: "task_obj \<Rightarrow> string list" where
  "apps_of t = block_apps (blocking_info (snd t))"

section \<open>main.py: the scheduler\<close>

text \<open>
  The calls the scheduler makes on the \<^verbatim>\<open>Blocker\<close> are recorded in a trace.  What the
  program cannot decide is an input: the value of the global \<^verbatim>\<open>RUNNING\<close> (written by the
  input thread), the clock, and whether an operation raises.  All three are indexed by
  the number of primitive operations performed so far.
\<close>

datatype command =
  Block_apps "string list"
| Block_websites "string list"
| Unblock_websites "string list"

record env =
  running :: "nat \<Rightarrow> bool"
  clock :: "nat \<Rightarrow> int"
  fault :: "nat \<Rightarrow> py_exc option"

record world =
  steps :: nat
  trace :: "command list"

type_synonym 'a prog = "world \<Rightarrow> (py_exc + 'a) \<times> world"

definition ret :: "'a \<Rightarrow> 'a prog" where
  "ret x w = (Inr x, w)"

definition bnd :: "'a prog \<Rightarrow> ('a \<Rightarrow> 'b prog) \<Rightarrow> 'b prog" where
  "bnd m f w = (case m w of (Inl e, w') \<Rightarrow> (Inl e, w') | (Inr x, w') \<Rightarrow> f x w')"

text \<open>One primitive operation (\<^verbatim>\<open>print\<close>, \<^verbatim>\<open>time.sleep\<close>, the body of a backend call):
  it raises if the environment says so.\<close>

definition effect :: "env \<Rightarrow> unit prog" where
  "effect E w =
     (case fault E (steps w) of
        Some e \<Rightarrow> (Inl e, w\<lparr>steps := Suc (steps w)\<rparr>)
      | None \<Rightarrow> (Inr (), w\<lparr>steps := Suc (steps w)\<rparr>))"

text \<open>\<^verbatim>\<open>datetime.now().astimezone(TZ_INFO)\<close>.\<close>

definition now :: "env \<Rightarrow> int prog" where
  "now E w =
     (case fault E (steps w) of
        Some e \<Rightarrow> (Inl e, w\<lparr>steps := Suc (steps w)\<rparr>)
      | None \<Rightarrow> (Inr (clock E (steps w)), w\<lparr>steps := Suc (steps w)\<rparr>))"

text \<open>A call on the \<^verbatim>\<open>Blocker\<close>: the call is made, then its body runs.\<close>

definition backend :: "env \<Rightarrow> command \<Rightarrow> unit prog" where
  "backend E c w = effect E (w\<lparr>trace := trace w @ [c]\<rparr>)"

definition is_active :: "env \<Rightarrow> Task \<Rightarrow> bool prog" where
  "is_active E t = bnd (now E) (\<lambda>now_t. ret (in_window t now_t))"

fun get_active_task :: "env \<Rightarrow> task_obj list \<Rightarrow> task_obj option prog" where
  "get_active_task E [] w = (Inr None, w)"
| "get_active_task E (task # tasks) w =
     (case is_active E (snd task) w of
        (Inl e, w') \<Rightarrow> (Inl e, w')
      | (Inr a, w') \<Rightarrow>
          if a \<and> does_block_anything (snd task) then (Inr (Some task), w')
          else get_active_task E tasks w')"

fun unblock_all_tasks :: "env \<Rightarrow> task_obj list \<Rightarrow> unit prog" where
  "unblock_all_tasks E [] w = (Inr (), w)"
| "unblock_all_tasks E (task # tasks) w =
     (case backend E (Unblock_websites (websites_of task)) w of
        (Inl e, w') \<Rightarrow> (Inl e, w')
      | (Inr u, w') \<Rightarrow> unblock_all_tasks E tasks w')"

text \<open>Lines 92 to 97.  \<^verbatim>\<open>active_task.blocking_info\<close> is a dictionary of two keys, hence
  true.\<close>

definition start_blocking :: "env \<Rightarrow> task_obj \<Rightarrow> task_obj option prog" where
  "start_blocking E active_task =
     bnd (effect E) (\<lambda>_.
     bnd (backend E (Block_apps (apps_of active_task))) (\<lambda>_.
     bnd (backend E (Block_websites (websites_of active_task))) (\<lambda>_.
     ret (Some active_task))))"

text \<open>Lines 99 to 105: the two \<^verbatim>\<open>elif\<close> branches.\<close>

definition keep_or_release :: "env \<Rightarrow> task_obj option \<Rightarrow> task_obj option prog" where
  "keep_or_release E current_task =
     (case current_task of
        None \<Rightarrow> ret None
      | Some c \<Rightarrow>
          bnd (is_active E (snd c)) (\<lambda>a.
            if \<not> a
            then bnd (effect E) (\<lambda>_.
                 bnd (backend E (Unblock_websites (websites_of c))) (\<lambda>_.
                 ret None))
            else bnd (backend E (Block_apps (apps_of c))) (\<lambda>_. ret (Some c))))"

text \<open>Lines 89 to 107: one iteration; the result is the new \<^verbatim>\<open>current_task\<close>.\<close>

definition loop_body :: "env \<Rightarrow> task_obj list \<Rightarrow> task_obj option \<Rightarrow> task_obj option prog" where
  "loop_body E tasks current_task =
     bnd (effect E) (\<lambda>_.
     bnd (get_active_task E tasks) (\<lambda>active_task.
     bnd (case active_task of
            Some a \<Rightarrow>
              if differs_from a current_task then start_blocking E a
              else keep_or_release E current_task
          | None \<Rightarrow> keep_or_release E current_task) (\<lambda>cur.
     bnd (effect E) (\<lambda>_.
     ret cur))))"

text \<open>\<^verbatim>\<open>while RUNNING:\<close>.  The loop need not end, so its result is optional.\<close>

partial_function (option) scheduler_loop ::
  "env \<Rightarrow> task_obj list \<Rightarrow> task_obj option \<Rightarrow> world \<Rightarrow> ((py_exc + task_obj option) \<times> world) option" where
  "scheduler_loop E tasks current_task w =
     (if running E (steps w)
      then (case loop_body E tasks current_task w of
              (Inl e, w') \<Rightarrow> Some (Inl e, w')
            | (Inr cur, w') \<Rightarrow> scheduler_loop E tasks cur w')
      else Some (Inr current_task, w))"

declare scheduler_loop.simps [code]

definition initial_world :: world where
  "initial_world = \<lparr>steps = 0, trace = []\<rparr>"

text \<open>Lines 88 to 110: what the \<^verbatim>\<open>try\<close> block does after the loop has ended.\<close>

definition try_block_end :: "env \<Rightarrow> task_obj list \<Rightarrow> (py_exc + task_obj option) \<times> world \<Rightarrow> (py_exc + unit) \<times> world" where
  "try_block_end E tasks r =
     (case r of
        (Inl e, w) \<Rightarrow> (Inl e, w)
      | (Inr cur, w) \<Rightarrow> unblock_all_tasks E tasks w)"

text \<open>Lines 111 to 113: \<^verbatim>\<open>except Exception:\<close>.\<close>

definition except_Exception :: "env \<Rightarrow> task_obj list \<Rightarrow> (py_exc + unit) \<times> world \<Rightarrow> (py_exc + unit) \<times> world" where
  "except_Exception E tasks r =
     (case r of
        (Inr u, w) \<Rightarrow> (Inr (), w)
      | (Inl e, w) \<Rightarrow> if is_Exception e then unblock_all_tasks E tasks w else (Inl e, w))"

text \<open>
  \<^verbatim>\<open>main\<close> from line 86 on, for the task list that lines 80 to 84 have built.  \<open>None\<close>:
  the loop runs forever; \<open>Some (Inr (), w)\<close>: \<^verbatim>\<open>main\<close> returns; \<open>Some (Inl e, w)\<close>: the
  exception \<open>e\<close> leaves \<^verbatim>\<open>main\<close>.
\<close>

definition main :: "env \<Rightarrow> Task list \<Rightarrow> ((py_exc + unit) \<times> world) option" where
  "main E ts =
     (case scheduler_loop E (registry ts) None initial_world of
        None \<Rightarrow> None
      | Some r \<Rightarrow> Some (except_Exception E (registry ts) (try_block_end E (registry ts) r)))"

section \<open>taskParser.py: the horizon and the expansion of recurring tasks\<close>

text \<open>
  A wall-clock datetime: the day as \<^verbatim>\<open>date.toordinal()\<close> counts it (day 1 is Monday,
  1 January of year 1) and the microseconds since midnight.  Adding a
  \<^verbatim>\<open>timedelta(days=n)\<close> moves the day and leaves the time of day and the zone alone.
\<close>

record datetime =
  ordinal :: int
  micros :: int

text \<open>\<^verbatim>\<open>weekday()\<close>: Monday is 0 and Sunday is 6.\<close>

definition weekday :: "datetime \<Rightarrow> int" where
  "weekday d = (ordinal d + 6) mod 7"

definition add_days :: "datetime \<Rightarrow> int \<Rightarrow> datetime" where
  "add_days d n = d\<lparr>ordinal := ordinal d + n\<rparr>"

text \<open>
  \<^verbatim>\<open>_get_this_weeks_sunday\<close> (lines 316 to 319).  It reads the clock twice:
  \<open>now_tz\<close> is \<^verbatim>\<open>datetime.now(TZ_INFO)\<close> and \<open>today\<close> is \<^verbatim>\<open>datetime.today()\<close>.
\<close>

definition get_this_weeks_sunday :: "datetime \<Rightarrow> datetime \<Rightarrow> datetime" where
  "get_this_weeks_sunday now_tz today = add_days now_tz ((6 - weekday today) mod 7 + 7)"

text \<open>
  The horizon in the words of the specification: the next occurring Sunday (today, if
  today is a Sunday), at the last microsecond of the day.
\<close>

definition end_of_day :: int where
  "end_of_day = 24 * 60 * 60 * 1000000 - 1"

definition spec_end_of_current_week :: "datetime \<Rightarrow> datetime" where
  "spec_end_of_current_week today =
     \<lparr>ordinal = ordinal today + (6 - weekday today) mod 7, micros = end_of_day\<rparr>"

definition day_length :: int where
  "day_length = 24 * 60 * 60 * 1000000"

text \<open>The microseconds on the wall clock from the beginning of day 0 to \<open>d\<close>.\<close>

definition wall_of :: "datetime \<Rightarrow> int" where
  "wall_of d = ordinal d * day_length + micros d"

text \<open>
  A datetime with a zone: the reading of its wall clock in microseconds, the \<^verbatim>\<open>fold\<close>
  attribute, and the \<^verbatim>\<open>tzinfo\<close> object (two objects are equal when they are the same
  object).  What a zone says about a wall-clock reading is
  \<^verbatim>\<open>tzinfo.utcoffset(dt)\<close>, a function \<open>off\<close> of the object, the reading and the fold, in
  microseconds.
\<close>

record 'z aware =
  dt_wall :: int
  dt_fold :: bool
  dt_tz :: 'z

definition offset_at :: "('z \<Rightarrow> int \<Rightarrow> bool \<Rightarrow> int) \<Rightarrow> 'z aware \<Rightarrow> int" where
  "offset_at off d = off (dt_tz d) (dt_wall d) (dt_fold d)"

text \<open>The instant a datetime denotes, which \<^verbatim>\<open>astimezone\<close> keeps: the reading in UTC.\<close>

definition instant_of :: "('z \<Rightarrow> int \<Rightarrow> bool \<Rightarrow> int) \<Rightarrow> 'z aware \<Rightarrow> int" where
  "instant_of off d = dt_wall d - offset_at off d"

text \<open>
  Python's arithmetic on datetimes with a zone.  \<^verbatim>\<open>a - b\<close> is the difference of the wall
  clocks when both have the same \<^verbatim>\<open>tzinfo\<close> object and the difference of the instants
  otherwise; \<^verbatim>\<open>a <= b\<close> compares in the same way; \<^verbatim>\<open>d + delta\<close> moves the wall clock,
  keeps the zone and clears the fold.
\<close>

definition dt_sub :: "('z \<Rightarrow> int \<Rightarrow> bool \<Rightarrow> int) \<Rightarrow> 'z aware \<Rightarrow> 'z aware \<Rightarrow> int" where
  "dt_sub off a b =
     (if dt_tz a = dt_tz b then dt_wall a - dt_wall b
      else instant_of off a - instant_of off b)"

definition dt_le :: "('z \<Rightarrow> int \<Rightarrow> bool \<Rightarrow> int) \<Rightarrow> 'z aware \<Rightarrow> 'z aware \<Rightarrow> bool" where
  "dt_le off a b =
     (if dt_tz a = dt_tz b then dt_wall a \<le> dt_wall b
      else instant_of off a \<le> instant_of off b)"

definition dt_add :: "'z aware \<Rightarrow> int \<Rightarrow> 'z aware" where
  "dt_add d delta = \<lparr>dt_wall = dt_wall d + delta, dt_fold = False, dt_tz = dt_tz d\<rparr>"

text \<open>A wall-clock datetime placed in the zone \<open>z\<close>, as the result of an addition.\<close>

definition aware_of :: "'z \<Rightarrow> datetime \<Rightarrow> 'z aware" where
  "aware_of z d = \<lparr>dt_wall = wall_of d, dt_fold = False, dt_tz = z\<rparr>"

text \<open>The dictionary \<^verbatim>\<open>Task_Args\<close> that \<^verbatim>\<open>_container_to_task_args\<close> returns: all five keys
  are always present, and both times carry a zone.\<close>

record 'z Task_Args =
  arg_title :: string
  arg_start_time :: "'z aware"
  arg_end_time :: "'z aware"
  arg_description :: string
  arg_repetition :: "string option"

text \<open>
  What \<^verbatim>\<open>get_tasks\<close> takes from outside the repository:
  \<^item> \<open>rrulestr\<close> is \<^verbatim>\<open>dateutil.rrule.rrulestr(s, dtstart=d)\<close>, which raises on a
    string it cannot parse;
  \<^item> \<open>between\<close> is \<^verbatim>\<open>rule.between(after, before, inc)\<close>;
  \<^item> \<open>html_text\<close> is the \<^verbatim>\<open>get_text\<close> of BeautifulSoup;
  \<^item> \<open>horizon_clock k\<close> is the pair of clock readings of the \<open>k\<close>-th call of
    \<^verbatim>\<open>_get_this_weeks_sunday\<close>;
  \<^item> \<open>utcoffset\<close> is the \<^verbatim>\<open>utcoffset\<close> of the zone objects, and \<open>tz_info\<close> is the object
    \<^verbatim>\<open>TZ_INFO\<close> of utils.py.
\<close>

record ('r, 'z) library =
  rrulestr :: "string \<Rightarrow> 'z aware \<Rightarrow> py_exc + 'r"
  between :: "'r \<Rightarrow> 'z aware \<Rightarrow> 'z aware \<Rightarrow> bool \<Rightarrow> 'z aware list"
  html_text :: "string \<Rightarrow> py_exc + string"
  horizon_clock :: "nat \<Rightarrow> datetime \<times> datetime"
  utcoffset :: "'z \<Rightarrow> int \<Rightarrow> bool \<Rightarrow> int"
  tz_info :: 'z

text \<open>Lines 340 to 344: a task without a rule.\<close>

definition single_task :: "('r, 'z) library \<Rightarrow> 'z Task_Args \<Rightarrow> Task" where
  "single_task L a =
     new_Task (html_text L) (arg_title a)
       (instant_of (utcoffset L) (arg_start_time a))
       (instant_of (utcoffset L) (arg_end_time a))
       (arg_description a) (arg_repetition a)"

text \<open>Lines 354 to 361: the task of one occurrence.  Its end is
  \<^verbatim>\<open>occ + (end_time - start_time)\<close>, computed before the constructor converts it.\<close>

definition occurrence_task :: "('r, 'z) library \<Rightarrow> 'z Task_Args \<Rightarrow> 'z aware \<Rightarrow> Task" where
  "occurrence_task L a occ =
     new_Task (html_text L) (arg_title a)
       (instant_of (utcoffset L) occ)
       (instant_of (utcoffset L)
          (dt_add occ (dt_sub (utcoffset L) (arg_end_time a) (arg_start_time a))))
       (arg_description a) (arg_repetition a)"

text \<open>Lines 338 to 364: the tasks that one iteration appends, for the horizon \<open>h\<close>.\<close>

definition expand :: "('r, 'z) library \<Rightarrow> 'z aware \<Rightarrow> 'z Task_Args \<Rightarrow> py_exc + Task list" where
  "expand L h a =
     (case arg_repetition a of
        None \<Rightarrow> Inr [single_task L a]
      | Some r \<Rightarrow>
          (case rrulestr L r (arg_start_time a) of
             Inl e \<Rightarrow> Inl e
           | Inr rule \<Rightarrow>
               Inr (map (occurrence_task L a) (between L rule (arg_start_time a) h True))))"

text \<open>The value of the \<open>k\<close>-th call of \<^verbatim>\<open>_get_this_weeks_sunday\<close>: a datetime of the zone
  \<^verbatim>\<open>TZ_INFO\<close>.\<close>

definition horizon :: "('r, 'z) library \<Rightarrow> nat \<Rightarrow> 'z aware" where
  "horizon L k =
     aware_of (tz_info L)
       (get_this_weeks_sunday (fst (horizon_clock L k)) (snd (horizon_clock L k)))"

text \<open>
  Lines 336 to 366: the loop over \<^verbatim>\<open>task_args_list\<close>.  \<open>k\<close> counts the calls of
  \<^verbatim>\<open>_get_this_weeks_sunday\<close> made so far, \<open>task_list\<close> is the accumulator.
\<close>

fun task_loop ::
  "('r, 'z) library \<Rightarrow> nat \<Rightarrow> Task list \<Rightarrow> 'z Task_Args list \<Rightarrow> py_exc + Task list" where
  "task_loop L k task_list [] = Inr task_list"
| "task_loop L k task_list (a # rest) =
     (case expand L (horizon L k) a of
        Inl e \<Rightarrow> Inl e
      | Inr new \<Rightarrow>
          task_loop L (if arg_repetition a = None then k else Suc k) (task_list @ new) rest)"

definition get_tasks :: "('r, 'z) library \<Rightarrow> 'z Task_Args list \<Rightarrow> py_exc + Task list" where
  "get_tasks L task_args_list = task_loop L 0 [] task_args_list"

text \<open>The time that elapses from the start of a task to its end.\<close>

definition elapsed :: "Task \<Rightarrow> int" where
  "elapsed t = end_time t - start_time t"

section \<open>Vocabulary of the proofs\<close>

text \<open>
  \<open>emits_only P m\<close>: whatever \<open>m\<close> returns, it only moves the operation count forward and
  only appends to the trace, and every command it appends satisfies \<open>P\<close>.
\<close>

definition emits_only :: "(command \<Rightarrow> bool) \<Rightarrow> 'a prog \<Rightarrow> bool" where
  "emits_only P m =
     (\<forall>w r w'. m w = (r, w') \<longrightarrow>
        steps w \<le> steps w' \<and> (\<exists>new. trace w' = trace w @ new \<and> list_all P new))"

text \<open>The commands one iteration may issue while it tracks \<open>cur\<close>: it unblocks the websites
  of no other task.\<close>

definition tick_command :: "task_obj option \<Rightarrow> command \<Rightarrow> bool" where
  "tick_command cur c =
     (\<forall>ws. c = Unblock_websites ws \<longrightarrow> (\<exists>a. cur = Some a \<and> ws = websites_of a))"

section \<open>Concrete inputs\<close>

text \<open>A task that is active from instant 0 to instant 100 and blocks one app and one
  website, and one that names a website only.\<close>

definition focus_task :: Task where
  "focus_task =
     \<lparr>title = ''Focus'', start_time = 0, end_time = 100, description = [],
      repetition = None,
      blocking_info = \<lparr>block_apps = [''slack''], block_websites = [''youtube.com'']\<rparr>\<rparr>"

definition websites_only_task :: Task where
  "websites_only_task =
     \<lparr>title = ''Read'', start_time = 0, end_time = 100, description = [],
      repetition = None,
      blocking_info = \<lparr>block_apps = [], block_websites = [''x.com'']\<rparr>\<rparr>"

text \<open>The clock stands at instant 50 and nothing raises; \<^verbatim>\<open>RUNNING\<close> is true until eight
  operations have been performed.\<close>

definition calm_env :: env where
  "calm_env = \<lparr>running = (\<lambda>k. k < 8), clock = (\<lambda>k. 50), fault = (\<lambda>k. None)\<rparr>"

text \<open>Monday, 3 June 2024, at 10:00.\<close>

definition monday_morning :: datetime where
  "monday_morning = \<lparr>ordinal = 739040, micros = 36000000000\<rparr>"

text \<open>Sunday, 24 March 2024, at 10:00.\<close>

definition sunday_morning :: datetime where
  "sunday_morning = \<lparr>ordinal = 738969, micros = 36000000000\<rparr>"

text \<open>A time of day in microseconds since midnight.\<close>

definition clock_time :: "int \<Rightarrow> int \<Rightarrow> int" where
  "clock_time h m = (h * 60 + m) * 60000000"

text \<open>
  The zone of Warsaw in 2024: one hour ahead of UTC, and two hours from 31 March (day
  738976), 02:00, to 27 October (day 739186), 03:00, on the wall clock.  Any other zone
  object is UTC.
\<close>

definition warsaw_offset :: "string \<Rightarrow> int \<Rightarrow> bool \<Rightarrow> int" where
  "warsaw_offset z w f =
     (if z = ''Europe/Warsaw''
      then (if 738976 * day_length + clock_time 2 0 \<le> w \<and> w < 739186 * day_length + clock_time 3 0
            then clock_time 2 0 else clock_time 1 0)
      else 0)"

definition warsaw_at :: "int \<Rightarrow> int \<Rightarrow> int \<Rightarrow> string aware" where
  "warsaw_at day h m =
     \<lparr>dt_wall = day * day_length + clock_time h m, dt_fold = False, dt_tz = ''Europe/Warsaw''\<rparr>"

text \<open>
  A stand-in for dateutil: the only rule it parses is the weekly one and it raises
  \<^verbatim>\<open>ValueError\<close> on any other string, a rule is the list of the datetimes it generates
  (the first four, one week apart on the wall clock), and \<open>between\<close> keeps those inside
  the bounds.  The clock of the horizon stands at Monday, 3 June 2024, 10:00.
\<close>

definition weekly_library :: "(string aware list, string) library" where
  "weekly_library =
     \<lparr>rrulestr = (\<lambda>s d. if s = ''FREQ=WEEKLY''
                        then Inr (map (\<lambda>i. dt_add d (i * 7 * day_length)) [0, 1, 2, 3])
                        else Inl (Exc ''ValueError'')),
      between = (\<lambda>rule lo hi inc.
                   filter (\<lambda>d. if inc then dt_le warsaw_offset lo d \<and> dt_le warsaw_offset d hi
                                else \<not> dt_le warsaw_offset d lo \<and> \<not> dt_le warsaw_offset hi d)
                     rule),
      html_text = plain_text,
      horizon_clock = (\<lambda>k. (monday_morning, monday_morning)),
      utcoffset = warsaw_offset,
      tz_info = ''Europe/Warsaw''\<rparr>"

text \<open>The same with the clock of the horizon at Sunday, 24 March 2024, 10:00.\<close>

definition march_library :: "(string aware list, string) library" where
  "march_library = weekly_library\<lparr>horizon_clock := (\<lambda>k. (sunday_morning, sunday_morning))\<rparr>"

text \<open>A weekly hour from 09:00 to 10:00, first on Monday, 3 June 2024.\<close>

definition weekly_focus :: "string Task_Args" where
  "weekly_focus =
     \<lparr>arg_title = ''Focus'',
      arg_start_time = warsaw_at 739040 9 0,
      arg_end_time = warsaw_at 739040 10 0,
      arg_description = ''##blocking block_apps: slack; block_websites: youtube.com; ##blocking'',
      arg_repetition = Some ''FREQ=WEEKLY''\<rparr>"

definition single_focus :: "string Task_Args" where
  "single_focus = weekly_focus\<lparr>arg_repetition := None\<rparr>"

definition broken_focus :: "string Task_Args" where
  "broken_focus = weekly_focus\<lparr>arg_repetition := Some ''FREQ=''\<rparr>"

text \<open>Two weekly hours of the night, from 01:30 to 03:30, first on Sunday, 24 March 2024.\<close>

definition night_focus :: "string Task_Args" where
  "night_focus =
     weekly_focus\<lparr>arg_start_time := warsaw_at 738969 1 30, arg_end_time := warsaw_at 738969 3 30\<rparr>"

definition elapsed_times :: "py_exc + Task list \<Rightarrow> py_exc + int list" where
  "elapsed_times r = (case r of Inl e \<Rightarrow> Inl e | Inr ts \<Rightarrow> Inr (map elapsed ts))"

text \<open>
  \<^verbatim>\<open>RUNNING\<close> stays true; the sixth operation, the \<^verbatim>\<open>time.sleep\<close> of the first iteration,
  is interrupted from the keyboard.
\<close>

definition interrupted_env :: env where
  "interrupted_env =
     \<lparr>running = (\<lambda>k. True), clock = (\<lambda>k. 50),
      fault = (\<lambda>k. if k = 5 then Some KeyboardInterrupt else None)\<rparr>"

text \<open>The fourth operation, the first \<^verbatim>\<open>block_apps\<close>, raises the \<^verbatim>\<open>SystemError\<close> of
  blocker.py.\<close>

definition failing_env :: env where
  "failing_env =
     \<lparr>running = (\<lambda>k. True), clock = (\<lambda>k. 50),
      fault = (\<lambda>k. if k = 3 then Some (Exc ''SystemError'') else None)\<rparr>"

text \<open>
  A task from instant 10 to instant 20, registered before \<open>focus_task\<close>, whose window
  contains it; four iterations, at the instants 5, 15, 25 and 105.
\<close>

definition inner_task :: Task where
  "inner_task =
     \<lparr>title = ''Mail'', start_time = 10, end_time = 20, description = [],
      repetition = None,
      blocking_info = \<lparr>block_apps = [''discord''], block_websites = [''reddit.com'']\<rparr>\<rparr>"

definition nested_env :: env where
  "nested_env =
     \<lparr>running = (\<lambda>k. k < 27),
      clock = (\<lambda>k. if k < 7 then 5 else if k < 13 then 15 else if k < 20 then 25 else 105),
      fault = (\<lambda>k. None)\<rparr>"

text \<open>A task with the title and the start of \<open>focus_task\<close> that ends at instant 10.\<close>

definition twin_task :: Task where
  "twin_task = focus_task\<lparr>end_time := 10\<rparr>"



section \<open>Directive extraction\<close>

lemma extract_raise_no_blocking:
  "extract_body get_text desc = Inl e \<Longrightarrow> extract_blocking_info get_text desc = no_blocking"
  by (simp add: extract_blocking_info_def)

lemma important_part_without_marker:
  assumes "first_match marker desc = None"
  shows "important_part desc = []"
proof -
  have "py_find desc marker 0 = - 1"
    using assms by (simp add: py_find_def)
  then show ?thesis
    by (simp add: important_part_def py_slice_def py_strip_def drop_take)
qed

lemma no_marker_no_blocking:
  assumes "clean_description get_text desc = Inr cleaned"
      and "first_match marker (py_lower cleaned) = None"
  shows "extract_blocking_info get_text desc = no_blocking"
  using assms
  by (simp add: extract_blocking_info_def extract_body_def important_part_without_marker)

lemma empty_block_no_blocking:
  assumes "clean_description get_text desc = Inr cleaned"
      and "important_part (py_lower cleaned) = []"
  shows "extract_blocking_info get_text desc = no_blocking"
  using assms by (simp add: extract_blocking_info_def extract_body_def)

text \<open>
  C5.  Extraction never raises (it is a total function into directives), an exception
  inside it gives the empty directive (\<open>extract_raise_no_blocking\<close>), and so do a
  description without marker (\<open>no_marker_no_blocking\<close>) and an empty block
  (\<open>empty_block_no_blocking\<close>).  With exactly one marker the claim fails: \<^verbatim>\<open>find\<close> answers
  \<open>-1\<close> for the second marker, the slice \<^verbatim>\<open>desc[begin_index:-1]\<close> is the rest of the
  description without its last character, and the directive in it is extracted.
\<close>

theorem single_marker_is_extracted:
  "py_find ''##blocking block_apps: a; block_websites: b; '' marker 0 = 0
   \<and> py_find ''##blocking block_apps: a; block_websites: b; '' marker 1 = - 1
   \<and> extract_blocking_info plain_text ''##blocking block_apps: a; block_websites: b; ''
       = \<lparr>block_apps = [''a''], block_websites = [''b'']\<rparr>"
  by code_simp

text \<open>
  C6.  With the apps key first, both values are extracted.  With the websites key first,
  the apps value is cut at the first semicolon of the block (lines 65 to 67 call
  \<^verbatim>\<open>find(";")\<close> without a start index, line 81 passes one), which lies before the apps key: the slice
  is empty and the apps list is the single empty string.
\<close>

theorem key_order_changes_apps:
  "extract_blocking_info plain_text ''##blocking block_apps: a; block_websites: b; ##blocking''
     = \<lparr>block_apps = [''a''], block_websites = [''b'']\<rparr>
   \<and> extract_blocking_info plain_text ''##blocking block_websites: b; block_apps: a; ##blocking''
     = \<lparr>block_apps = [''''], block_websites = [''b'']\<rparr>"
  by code_simp

section \<open>The active task\<close>

lemma is_active_cases:
  "is_active E t w =
     (case fault E (steps w) of
        Some e \<Rightarrow> (Inl e, w\<lparr>steps := Suc (steps w)\<rparr>)
      | None \<Rightarrow> (Inr (in_window t (clock E (steps w))), w\<lparr>steps := Suc (steps w)\<rparr>))"
  by (simp add: is_active_def bnd_def now_def ret_def split: option.splits)

lemma get_active_task_Some:
  "get_active_task E tasks w = (Inr (Some t), w') \<Longrightarrow>
     t \<in> set tasks \<and> does_block_anything (snd t)"
proof (induction tasks arbitrary: w)
  case Nil
  then show ?case by simp
next
  case (Cons task tasks)
  then show ?case
    by (auto simp: is_active_cases split: option.splits if_splits)
qed

text \<open>
  C2.  A task whose apps list is empty or whose websites list is empty is never the
  result of \<^verbatim>\<open>get_active_task\<close>, whatever the clock says.
\<close>

theorem active_task_blocks_both:
  assumes "block_apps (blocking_info (snd t)) = [] \<or> block_websites (blocking_info (snd t)) = []"
  shows "fst (get_active_task E tasks w) \<noteq> Inr (Some t)"
proof
  assume "fst (get_active_task E tasks w) = Inr (Some t)"
  then have "get_active_task E tasks w = (Inr (Some t), snd (get_active_task E tasks w))"
    by (metis prod.collapse)
  then have "does_block_anything (snd t)"
    using get_active_task_Some by blast
  with assms show False
    by (auto simp: does_block_anything_def)
qed

theorem active_task_blocks_both_witness:
  "in_window websites_only_task (clock calm_env 0)
   \<and> block_apps (blocking_info (snd (0, websites_only_task))) = []
   \<and> fst (get_active_task calm_env [(0, websites_only_task)] initial_world)
       \<noteq> Inr (Some (0, websites_only_task))"
proof -
  have h: "block_apps (blocking_info (snd (0::nat, websites_only_task))) = []
         \<or> block_websites (blocking_info (snd (0::nat, websites_only_task))) = []"
    by (simp add: websites_only_task_def)
  show ?thesis
    using active_task_blocks_both [OF h, of calm_env "[(0, websites_only_task)]" initial_world]
    by (simp add: websites_only_task_def calm_env_def in_window_def)
qed

section \<open>The horizon\<close>

text \<open>
  C7, as stated, fails: on Monday 3 June 2024 at 10:00 the horizon is Sunday 16 June at
  10:00, where the specification's end of the current week is Sunday 9 June at the last
  microsecond of the day.
\<close>

theorem horizon_counterexample:
  "get_this_weeks_sunday \<lparr>ordinal = 739040, micros = 36000000000\<rparr>
       \<lparr>ordinal = 739040, micros = 36000000000\<rparr>
     = \<lparr>ordinal = 739053, micros = 36000000000\<rparr>
   \<and> spec_end_of_current_week \<lparr>ordinal = 739040, micros = 36000000000\<rparr>
     = \<lparr>ordinal = 739046, micros = 86399999999\<rparr>"
  by (simp add: get_this_weeks_sunday_def add_days_def weekday_def
        spec_end_of_current_week_def end_of_day_def)

lemma horizon_weekday:
  fixes n m :: int
  shows "((n + ((6 - (m + 6) mod 7) mod 7 + 7) + 6) mod 7 = 6) \<longleftrightarrow> ((m + 6) mod 7 = (n + 6) mod 7)"
proof -
  define x where "x = (m + 6) mod 7"
  define y where "y = (n + 6) mod 7"
  have x: "0 \<le> x" "x \<le> 6" and y: "0 \<le> y" "y \<le> 6"
    by (simp_all add: x_def y_def)
  have 1: "(6 - x) mod 7 = 6 - x"
    using x by simp
  have "(n + ((6 - x) + 7) + 6) mod 7 = ((n + 6) + (6 - x) + 7) mod 7"
    by (simp add: algebra_simps)
  also have "\<dots> = ((n + 6) + (6 - x)) mod 7"
    by (rule mod_add_self2)
  also have "\<dots> = (y + (6 - x)) mod 7"
    unfolding y_def by (simp add: mod_add_left_eq)
  finally have 2: "(n + ((6 - x) + 7) + 6) mod 7 = (y + (6 - x)) mod 7" .
  have 3: "((y + (6 - x)) mod 7 = 6) \<longleftrightarrow> (x = y)"
  proof
    assume "x = y"
    then show "(y + (6 - x)) mod 7 = 6" by simp
  next
    assume a: "(y + (6 - x)) mod 7 = 6"
    show "x = y"
    proof (cases "y + (6 - x) < 7")
      case True
      with x y have "(y + (6 - x)) mod 7 = y + (6 - x)" by simp
      with a show ?thesis by simp
    next
      case False
      with x y have "(y + (6 - x)) mod 7 = y + (6 - x) - 7"
        by (simp add: mod_pos_geq)
      with a x y show ?thesis by simp
    qed
  qed
  show ?thesis
    using 1 2 3 unfolding x_def y_def by simp
qed

text \<open>
  C7, amended.  The horizon is computed from the clock at each call: it is the reading
  of \<^verbatim>\<open>datetime.now(TZ_INFO)\<close> moved forward by whole days, with its time of day (not the
  end of the day); it is not before the next occurring Sunday and at most thirteen days
  ahead; and it falls on a Sunday exactly when \<^verbatim>\<open>datetime.today()\<close> and
  \<^verbatim>\<open>datetime.now(TZ_INFO)\<close> are on the same day of the week.
\<close>

theorem horizon_is_a_sunday:
  "micros (get_this_weeks_sunday now_tz today) = micros now_tz
   \<and> ordinal (spec_end_of_current_week now_tz) \<le> ordinal (get_this_weeks_sunday now_tz today)
   \<and> ordinal (get_this_weeks_sunday now_tz today) \<le> ordinal now_tz + 13
   \<and> (weekday (get_this_weeks_sunday now_tz today) = 6 \<longleftrightarrow> weekday today = weekday now_tz)"
proof -
  have r: "0 \<le> k mod 7 \<and> k mod 7 < 7" for k :: int
    by simp
  have 1: "(6 - (ordinal now_tz + 6) mod 7) mod 7 < 7"
    using r by blast
  have 2: "(6 - (ordinal today + 6) mod 7) mod 7 < 7" "0 \<le> (6 - (ordinal today + 6) mod 7) mod 7"
    using r by blast+
  show ?thesis
    using 1 2 horizon_weekday [of "ordinal now_tz" "ordinal today"]
    by (simp add: get_this_weeks_sunday_def add_days_def weekday_def spec_end_of_current_week_def)
qed

theorem horizon_is_a_sunday_witness:
  "weekday (monday_morning\<lparr>micros := 36000000007\<rparr>) = weekday monday_morning
   \<and> weekday (get_this_weeks_sunday monday_morning (monday_morning\<lparr>micros := 36000000007\<rparr>)) = 6
   \<and> weekday sunday_morning \<noteq> weekday monday_morning
   \<and> weekday (get_this_weeks_sunday monday_morning sunday_morning) \<noteq> 6
   \<and> micros (get_this_weeks_sunday monday_morning sunday_morning) = 36000000000
   \<and> ordinal (get_this_weeks_sunday monday_morning sunday_morning) \<le> 739053"
proof -
  have same: "weekday (monday_morning\<lparr>micros := 36000000007\<rparr>) = weekday monday_morning"
    by (simp add: weekday_def)
  have other: "weekday sunday_morning \<noteq> weekday monday_morning"
    by (simp add: weekday_def sunday_morning_def monday_morning_def)
  show ?thesis
    using same other
      horizon_is_a_sunday [of monday_morning "monday_morning\<lparr>micros := 36000000007\<rparr>"]
      horizon_is_a_sunday [of monday_morning sunday_morning]
    by (simp add: monday_morning_def)
qed

section \<open>Expansion of recurring tasks\<close>

lemma expand_fails:
  "expand L h a = Inl e \<Longrightarrow>
     \<exists>r. arg_repetition a = Some r \<and> rrulestr L r (arg_start_time a) = Inl e"
  by (auto simp: expand_def split: option.splits sum.splits)

lemma task_loop_fails:
  assumes "a \<in> set args" and "arg_repetition a = Some r"
      and "rrulestr L r (arg_start_time a) = Inl e"
  shows "\<exists>b r' e'. b \<in> set args \<and> arg_repetition b = Some r'
           \<and> rrulestr L r' (arg_start_time b) = Inl e'
           \<and> task_loop L k task_list args = Inl e'"
  using assms(1)
proof (induction args arbitrary: k task_list)
  case Nil
  then show ?case by simp
next
  case (Cons b rest)
  show ?case
  proof (cases "expand L (horizon L k) b")
    case (Inl e')
    with expand_fails[OF Inl] show ?thesis by auto
  next
    case (Inr new)
    with assms(2,3) have "b \<noteq> a"
      by (auto simp: expand_def)
    with Cons.prems have "a \<in> set rest" by simp
    from Cons.IH[OF this, of "if arg_repetition b = None then k else Suc k" "task_list @ new"]
    obtain c r' e' where "c \<in> set rest" "arg_repetition c = Some r'"
        "rrulestr L r' (arg_start_time c) = Inl e'"
        "task_loop L (if arg_repetition b = None then k else Suc k) (task_list @ new) rest = Inl e'"
      by blast
    with Inr show ?thesis by auto
  qed
qed

lemma task_loop_well_formed_prefix:
  assumes "\<forall>b\<in>set pre. \<forall>r'. arg_repetition b = Some r' \<longrightarrow>
             (\<exists>rule. rrulestr L r' (arg_start_time b) = Inr rule)"
  shows "\<exists>k' task_list'. task_loop L k task_list (pre @ rest) = task_loop L k' task_list' rest"
  using assms
proof (induction pre arbitrary: k task_list)
  case Nil
  show ?case by auto
next
  case (Cons b pre)
  then obtain new where "expand L (horizon L k) b = Inr new"
    by (cases "arg_repetition b") (auto simp: expand_def)
  moreover from Cons have "\<exists>k' task_list'.
      task_loop L (if arg_repetition b = None then k else Suc k) (task_list @ new) (pre @ rest)
        = task_loop L k' task_list' rest"
    by simp
  ultimately show ?case by simp
qed

text \<open>
  C4, as stated, fails in the name of the error: the program defines no
  \<^verbatim>\<open>RecurrenceError\<close> and wraps nothing, so what leaves \<^verbatim>\<open>get_tasks\<close> is what the rule
  parser raised.  With a parser that raises \<^verbatim>\<open>ValueError\<close>, as dateutil does:
\<close>

theorem parser_error_is_not_renamed:
  "get_tasks weekly_library [broken_focus] = Inl (Exc ''ValueError'')
   \<and> get_tasks weekly_library [broken_focus] \<noteq> Inl (Exc ''RecurrenceError'')"
  by code_simp

text \<open>
  C4, amended.  A template whose rule the parser rejects makes \<^verbatim>\<open>get_tasks\<close> fail: the
  caller receives an exception that the parser raised for a template of the list (that
  of the first rejected template), unchanged, instead of a task list.  A template without
  a rule gives exactly one task, with the template's title and the instants of the
  template's start and end.
\<close>

theorem malformed_rule_is_raised:
  "(a \<in> set args \<and> arg_repetition a = Some r \<and> rrulestr L r (arg_start_time a) = Inl e
      \<longrightarrow> (\<exists>b r' e'. b \<in> set args \<and> arg_repetition b = Some r'
              \<and> rrulestr L r' (arg_start_time b) = Inl e' \<and> get_tasks L args = Inl e'))
   \<and> (arg_repetition a = Some r \<and> rrulestr L r (arg_start_time a) = Inl e
       \<and> (\<forall>b\<in>set pre. \<forall>r'. arg_repetition b = Some r' \<longrightarrow>
             (\<exists>rule. rrulestr L r' (arg_start_time b) = Inr rule))
      \<longrightarrow> get_tasks L (pre @ a # rest) = Inl e)
   \<and> (arg_repetition a = None
      \<longrightarrow> (\<exists>t. get_tasks L [a] = Inr [t] \<and> title t = arg_title a
               \<and> start_time t = instant_of (utcoffset L) (arg_start_time a)
               \<and> end_time t = instant_of (utcoffset L) (arg_end_time a)))"
proof (intro conjI impI)
  assume "a \<in> set args \<and> arg_repetition a = Some r \<and> rrulestr L r (arg_start_time a) = Inl e"
  then show "\<exists>b r' e'. b \<in> set args \<and> arg_repetition b = Some r'
              \<and> rrulestr L r' (arg_start_time b) = Inl e' \<and> get_tasks L args = Inl e'"
    unfolding get_tasks_def using task_loop_fails by blast
next
  assume h: "arg_repetition a = Some r \<and> rrulestr L r (arg_start_time a) = Inl e
       \<and> (\<forall>b\<in>set pre. \<forall>r'. arg_repetition b = Some r' \<longrightarrow>
             (\<exists>rule. rrulestr L r' (arg_start_time b) = Inr rule))"
  then obtain k' task_list' where
    "task_loop L 0 [] (pre @ a # rest) = task_loop L k' task_list' (a # rest)"
    using task_loop_well_formed_prefix by blast
  moreover from h have "expand L (horizon L k') a = Inl e"
    by (simp add: expand_def)
  ultimately show "get_tasks L (pre @ a # rest) = Inl e"
    by (simp add: get_tasks_def)
next
  assume "arg_repetition a = None"
  then show "\<exists>t. get_tasks L [a] = Inr [t] \<and> title t = arg_title a
               \<and> start_time t = instant_of (utcoffset L) (arg_start_time a)
               \<and> end_time t = instant_of (utcoffset L) (arg_end_time a)"
    by (simp add: get_tasks_def expand_def single_task_def new_Task_def)
qed

theorem malformed_rule_is_raised_witness:
  "get_tasks weekly_library [single_focus, broken_focus, weekly_focus] = Inl (Exc ''ValueError'')
   \<and> (\<exists>t. get_tasks weekly_library [single_focus] = Inr [t] \<and> title t = ''Focus''
          \<and> elapsed t = 3600000000)"
proof -
  have 1: "arg_repetition broken_focus = Some ''FREQ=''
       \<and> rrulestr weekly_library ''FREQ='' (arg_start_time broken_focus) = Inl (Exc ''ValueError'')
       \<and> (\<forall>b\<in>set [single_focus]. \<forall>r'. arg_repetition b = Some r' \<longrightarrow>
             (\<exists>rule. rrulestr weekly_library r' (arg_start_time b) = Inr rule))"
    by (simp add: broken_focus_def single_focus_def weekly_focus_def weekly_library_def)
  have 2: "arg_repetition single_focus = None"
    by (simp add: single_focus_def)
  have 3: "instant_of (utcoffset weekly_library) (arg_end_time single_focus)
             - instant_of (utcoffset weekly_library) (arg_start_time single_focus) = 3600000000"
    by code_simp
  from malformed_rule_is_raised [of broken_focus "[single_focus, broken_focus, weekly_focus]"
         "''FREQ=''" weekly_library "Exc ''ValueError''" "[single_focus]" "[weekly_focus]"] 1
  have "get_tasks weekly_library [single_focus, broken_focus, weekly_focus] = Inl (Exc ''ValueError'')"
    by simp
  moreover from malformed_rule_is_raised [of single_focus "[]" r weekly_library e "[]" "[]"] 2
  have "\<exists>t. get_tasks weekly_library [single_focus] = Inr [t] \<and> title t = arg_title single_focus
          \<and> start_time t = instant_of (utcoffset weekly_library) (arg_start_time single_focus)
          \<and> end_time t = instant_of (utcoffset weekly_library) (arg_end_time single_focus)"
    by blast
  ultimately show ?thesis
    using 3 by (auto simp: elapsed_def single_focus_def weekly_focus_def)
qed

text \<open>
  C3, as stated, fails in the duration: the end of an occurrence is computed on the wall
  clock of its zone.  A weekly task of the zone of Warsaw from 01:30 to 03:30, two hours
  long on 24 March 2024, lasts one hour on 31 March, when the clocks go from 02:00 to
  03:00.
\<close>

theorem duration_changes_with_the_clocks:
  "elapsed_times (expand march_library (horizon march_library 0) night_focus)
     = Inr [7200000000, 3600000000]
   \<and> instant_of (utcoffset march_library) (arg_end_time night_focus)
       - instant_of (utcoffset march_library) (arg_start_time night_focus) = 7200000000"
  by code_simp

text \<open>
  C3, amended.  For a template with a rule that parses, given that
  \<^verbatim>\<open>rule.between(start, horizon, inc=True)\<close> returns each datetime of the rule in the closed
  interval from the template's start to the horizon once, the tasks appended are one per
  such datetime, in the order of that list.  The task starts at the datetime; its end is
  the datetime moved forward on its wall clock by the template's end minus start (as
  Python subtracts them); the time that elapses from its start to its end is that of the
  template whenever the zone's offset from UTC is the same at the start and the end of
  the occurrence and at the start and the end of the template.  Every task carries the
  template's title and the directive of the template's description.
\<close>

theorem expand_one_task_per_instant:
  assumes rep: "arg_repetition a = Some r"
      and ok: "rrulestr L r (arg_start_time a) = Inr rule"
      and lib: "distinct (between L rule (arg_start_time a) h True)
                \<and> set (between L rule (arg_start_time a) h True)
                    = {d \<in> instants rule. dt_le (utcoffset L) (arg_start_time a) d
                                          \<and> dt_le (utcoffset L) d h}"
  shows "\<exists>starts occs. expand L h a = Inr occs
           \<and> starts = between L rule (arg_start_time a) h True
           \<and> distinct starts
           \<and> set starts = {d \<in> instants rule. dt_le (utcoffset L) (arg_start_time a) d
                                           \<and> dt_le (utcoffset L) d h}
           \<and> list_all2
                (\<lambda>d t. start_time t = instant_of (utcoffset L) d
                     \<and> end_time t = instant_of (utcoffset L)
                          (dt_add d (dt_sub (utcoffset L) (arg_end_time a) (arg_start_time a)))
                     \<and> (offset_at (utcoffset L)
                            (dt_add d (dt_sub (utcoffset L) (arg_end_time a) (arg_start_time a)))
                          = offset_at (utcoffset L) d
                        \<and> offset_at (utcoffset L) (arg_end_time a)
                          = offset_at (utcoffset L) (arg_start_time a)
                        \<longrightarrow> elapsed t = instant_of (utcoffset L) (arg_end_time a)
                                        - instant_of (utcoffset L) (arg_start_time a))
                     \<and> title t = arg_title a
                     \<and> blocking_info t = extract_blocking_info (html_text L) (arg_description a))
                starts occs"
proof -
  let ?starts = "between L rule (arg_start_time a) h True"
  let ?occs = "map (occurrence_task L a) ?starts"
  have e: "expand L h a = Inr ?occs"
    using rep ok by (simp add: expand_def)
  have "list_all2
                (\<lambda>d t. start_time t = instant_of (utcoffset L) d
                     \<and> end_time t = instant_of (utcoffset L)
                          (dt_add d (dt_sub (utcoffset L) (arg_end_time a) (arg_start_time a)))
                     \<and> (offset_at (utcoffset L)
                            (dt_add d (dt_sub (utcoffset L) (arg_end_time a) (arg_start_time a)))
                          = offset_at (utcoffset L) d
                        \<and> offset_at (utcoffset L) (arg_end_time a)
                          = offset_at (utcoffset L) (arg_start_time a)
                        \<longrightarrow> elapsed t = instant_of (utcoffset L) (arg_end_time a)
                                        - instant_of (utcoffset L) (arg_start_time a))
                     \<and> title t = arg_title a
                     \<and> blocking_info t = extract_blocking_info (html_text L) (arg_description a))
          ?starts ?occs"
    unfolding list_all2_map2
    by (rule list_all2_refl)
       (auto simp: occurrence_task_def new_Task_def elapsed_def instant_of_def dt_add_def
          dt_sub_def)
  with e lib show ?thesis
    by blast
qed

theorem expand_one_task_per_instant_witness:
  "\<exists>occs. expand weekly_library (horizon weekly_library 0) weekly_focus = Inr occs
      \<and> map start_time occs
          = [instant_of warsaw_offset (warsaw_at 739040 9 0),
             instant_of warsaw_offset (warsaw_at 739047 9 0)]
      \<and> map elapsed occs = [3600000000, 3600000000]
      \<and> map title occs = [''Focus'', ''Focus'']"
proof -
  let ?s = "arg_start_time weekly_focus"
  let ?rule = "map (\<lambda>i. dt_add ?s (i * 7 * day_length)) [0, 1, 2, 3]"
  let ?d1 = "warsaw_at 739040 9 0"
  let ?d2 = "warsaw_at 739047 9 0"
  have rep: "arg_repetition weekly_focus = Some ''FREQ=WEEKLY''"
    by (simp add: weekly_focus_def)
  have ok: "rrulestr weekly_library ''FREQ=WEEKLY'' ?s = Inr ?rule"
    by (simp add: weekly_library_def)
  have b: "between weekly_library ?rule ?s (horizon weekly_library 0) True = [?d1, ?d2]"
    by code_simp
  have lib: "distinct (between weekly_library ?rule ?s (horizon weekly_library 0) True)
       \<and> set (between weekly_library ?rule ?s (horizon weekly_library 0) True)
           = {d \<in> set ?rule. dt_le (utcoffset weekly_library) ?s d
                             \<and> dt_le (utcoffset weekly_library) d (horizon weekly_library 0)}"
  proof
    show "distinct (between weekly_library ?rule ?s (horizon weekly_library 0) True)"
      unfolding b by code_simp
    have bt: "between weekly_library rule lo hi True
                = filter (\<lambda>d. dt_le warsaw_offset lo d \<and> dt_le warsaw_offset d hi) rule"
      for rule lo hi
      by (simp add: weekly_library_def)
    have uo: "utcoffset weekly_library = warsaw_offset"
      by (simp add: weekly_library_def)
    show "set (between weekly_library ?rule ?s (horizon weekly_library 0) True)
           = {d \<in> set ?rule. dt_le (utcoffset weekly_library) ?s d
                             \<and> dt_le (utcoffset weekly_library) d (horizon weekly_library 0)}"
      unfolding bt uo by (rule set_filter)
  qed
  have off1: "offset_at (utcoffset weekly_library)
                 (dt_add ?d1 (dt_sub (utcoffset weekly_library) (arg_end_time weekly_focus) ?s))
               = offset_at (utcoffset weekly_library) ?d1
             \<and> offset_at (utcoffset weekly_library) (arg_end_time weekly_focus)
               = offset_at (utcoffset weekly_library) ?s"
    by code_simp
  have off2: "offset_at (utcoffset weekly_library)
                 (dt_add ?d2 (dt_sub (utcoffset weekly_library) (arg_end_time weekly_focus) ?s))
               = offset_at (utcoffset weekly_library) ?d2
             \<and> offset_at (utcoffset weekly_library) (arg_end_time weekly_focus)
               = offset_at (utcoffset weekly_library) ?s"
    by code_simp
  have len: "instant_of (utcoffset weekly_library) (arg_end_time weekly_focus)
               - instant_of (utcoffset weekly_library) ?s = 3600000000"
    by code_simp
  have u: "utcoffset weekly_library = warsaw_offset" "arg_title weekly_focus = ''Focus''"
    by (simp_all add: weekly_library_def weekly_focus_def)
  from expand_one_task_per_instant [where instants = set, OF rep ok lib]
  obtain occs where 1: "expand weekly_library (horizon weekly_library 0) weekly_focus = Inr occs"
    and 2: "list_all2
                (\<lambda>d t. start_time t = instant_of (utcoffset weekly_library) d
                     \<and> end_time t = instant_of (utcoffset weekly_library)
                          (dt_add d (dt_sub (utcoffset weekly_library) (arg_end_time weekly_focus) (arg_start_time weekly_focus)))
                     \<and> (offset_at (utcoffset weekly_library)
                            (dt_add d (dt_sub (utcoffset weekly_library) (arg_end_time weekly_focus) (arg_start_time weekly_focus)))
                          = offset_at (utcoffset weekly_library) d
                        \<and> offset_at (utcoffset weekly_library) (arg_end_time weekly_focus)
                          = offset_at (utcoffset weekly_library) (arg_start_time weekly_focus)
                        \<longrightarrow> elapsed t = instant_of (utcoffset weekly_library) (arg_end_time weekly_focus)
                                        - instant_of (utcoffset weekly_library) (arg_start_time weekly_focus))
                     \<and> title t = arg_title weekly_focus
                     \<and> blocking_info t = extract_blocking_info (html_text weekly_library) (arg_description weekly_focus))
                [?d1, ?d2] occs"
    unfolding b by blast
  from 2 obtain t1 t2 where 3: "occs = [t1, t2]"
    by (auto simp: list_all2_Cons1)
  from 2 off1 off2 len have "map start_time occs
          = [instant_of warsaw_offset ?d1, instant_of warsaw_offset ?d2]
      \<and> map elapsed occs = [3600000000, 3600000000]
      \<and> map title occs = [''Focus'', ''Focus'']"
    unfolding 3 u by simp
  with 1 show ?thesis
    by (intro exI[of _ occs]) simp
qed

section \<open>The scheduler\<close>

lemma emits_only_ret: "emits_only P (ret x)"
  by (simp add: emits_only_def ret_def)

lemma emits_only_effect: "emits_only P (effect E)"
  by (auto simp: emits_only_def effect_def split: option.splits)

lemma emits_only_now: "emits_only P (now E)"
  by (auto simp: emits_only_def now_def split: option.splits)

lemma emits_only_backend: "P c \<Longrightarrow> emits_only P (backend E c)"
  by (auto simp: emits_only_def backend_def effect_def split: option.splits)

lemma emits_only_bnd:
  assumes "emits_only P m" and "\<And>x. emits_only P (f x)"
  shows "emits_only P (bnd m f)"
  unfolding emits_only_def
proof (intro allI impI)
  fix w r w'
  assume run: "bnd m f w = (r, w')"
  obtain r1 w1 where m: "m w = (r1, w1)"
    by (cases "m w")
  from assms(1) m
  have "steps w \<le> steps w1 \<and> (\<exists>new. trace w1 = trace w @ new \<and> list_all P new)"
    unfolding emits_only_def by blast
  then obtain new1 where 1: "steps w \<le> steps w1" "trace w1 = trace w @ new1" "list_all P new1"
    by blast
  show "steps w \<le> steps w' \<and> (\<exists>new. trace w' = trace w @ new \<and> list_all P new)"
  proof (cases r1)
    case (Inl e)
    with run m have "w' = w1" by (simp add: bnd_def)
    with 1 show ?thesis by auto
  next
    case (Inr x)
    with run m have "f x w1 = (r, w')" by (simp add: bnd_def)
    with assms(2)[of x]
    have "steps w1 \<le> steps w' \<and> (\<exists>new. trace w' = trace w1 @ new \<and> list_all P new)"
      unfolding emits_only_def by blast
    then obtain new2 where "steps w1 \<le> steps w'" "trace w' = trace w1 @ new2" "list_all P new2"
      by blast
    with 1 show ?thesis by auto
  qed
qed

lemma emits_only_is_active: "emits_only P (is_active E t)"
  by (simp add: is_active_def emits_only_bnd emits_only_now emits_only_ret)

lemma emits_only_get_active_task: "emits_only P (get_active_task E tasks)"
proof (induction tasks)
  case Nil
  show ?case by (simp add: emits_only_def)
next
  case (Cons task tasks)
  have "get_active_task E (task # tasks) =
        bnd (is_active E (snd task))
          (\<lambda>a. if a \<and> does_block_anything (snd task) then ret (Some task)
                else get_active_task E tasks)"
    by (rule ext) (simp add: bnd_def ret_def split: prod.splits sum.splits)
  then show ?case
    using Cons by (simp add: emits_only_bnd emits_only_is_active emits_only_ret)
qed

lemma get_active_task_trace:
  assumes "get_active_task E tasks w = (r, w')"
  shows "trace w' = trace w"
proof -
  have "emits_only (\<lambda>c. False) (get_active_task E tasks)"
    by (rule emits_only_get_active_task)
  with assms obtain new where "trace w' = trace w @ new" "list_all (\<lambda>c. False) new"
    unfolding emits_only_def by blast
  then show ?thesis
    by (cases new) simp_all
qed

lemma emits_only_start_blocking:
  "P (Block_apps (apps_of a)) \<Longrightarrow> P (Block_websites (websites_of a)) \<Longrightarrow>
     emits_only P (start_blocking E a)"
  by (simp add: start_blocking_def emits_only_bnd emits_only_effect emits_only_backend
        emits_only_ret)

lemma emits_only_keep_or_release:
  "(\<And>c. cur = Some c \<Longrightarrow> P (Unblock_websites (websites_of c)) \<and> P (Block_apps (apps_of c))) \<Longrightarrow>
     emits_only P (keep_or_release E cur)"
  by (cases cur)
     (simp_all add: keep_or_release_def emits_only_bnd emits_only_effect emits_only_backend
        emits_only_ret emits_only_is_active)

lemma emits_only_loop_body: "emits_only (tick_command cur) (loop_body E tasks cur)"
  unfolding loop_body_def
  by (intro emits_only_bnd emits_only_effect emits_only_get_active_task emits_only_ret)
     (auto simp: tick_command_def intro!: emits_only_start_blocking emits_only_keep_or_release
        split: option.splits)

lemma loop_body_steps:
  assumes run: "loop_body E tasks cur w = (r, w')"
  shows "steps w < steps w'"
proof -
  obtain r1 w1 where e: "effect E w = (r1, w1)"
    by (cases "effect E w")
  then have s: "steps w1 = Suc (steps w)"
    by (auto simp: effect_def split: option.splits)
  show ?thesis
  proof (cases r1)
    case (Inl x)
    with run e have "w' = w1" by (simp add: loop_body_def bnd_def)
    with s show ?thesis by simp
  next
    case (Inr u)
    let ?rest = "bnd (get_active_task E tasks) (\<lambda>active_task.
       bnd (case active_task of
              Some a \<Rightarrow>
                if differs_from a cur then start_blocking E a
                else keep_or_release E cur
            | None \<Rightarrow> keep_or_release E cur) (\<lambda>cur.
       bnd (effect E) (\<lambda>_.
       ret cur)))"
    from Inr run e have "?rest w1 = (r, w')"
      by (simp add: loop_body_def bnd_def)
    moreover have "emits_only (\<lambda>c. True) ?rest"
      by (intro emits_only_bnd emits_only_effect emits_only_get_active_task emits_only_ret)
         (auto intro!: emits_only_start_blocking emits_only_keep_or_release split: option.splits)
    ultimately have "steps w1 \<le> steps w'"
      by (auto simp: emits_only_def)
    with s show ?thesis by simp
  qed
qed

text \<open>Once \<^verbatim>\<open>RUNNING\<close> has become false for good, the loop ends.\<close>

lemma scheduler_loop_terminates:
  assumes "\<forall>k\<ge>K. \<not> running E k"
  shows "\<exists>res. scheduler_loop E tasks cur w = Some res"
proof (induction "K - steps w" arbitrary: cur w rule: less_induct)
  case less
  show ?case
  proof (cases "running E (steps w)")
    case False
    then show ?thesis by (subst scheduler_loop.simps) simp
  next
    case True
    with assms have lt: "steps w < K" by (meson not_le)
    obtain r w' where b: "loop_body E tasks cur w = (r, w')"
      by (cases "loop_body E tasks cur w")
    show ?thesis
    proof (cases r)
      case (Inl e)
      with True b show ?thesis by (subst scheduler_loop.simps) simp
    next
      case (Inr c)
      from loop_body_steps[OF b] lt have "K - steps w' < K - steps w" by arith
      from less[OF this] obtain res where "scheduler_loop E tasks c w' = Some res" by blast
      with True b Inr show ?thesis by (subst scheduler_loop.simps) simp
    qed
  qed
qed

text \<open>The loop hands over a value only when it has read \<^verbatim>\<open>RUNNING\<close> as false.\<close>

lemma scheduler_loop_graceful_aux:
  "scheduler_loop E tasks cur w = Some res \<Longrightarrow>
     (\<forall>c w'. res = (Inr c, w') \<longrightarrow> \<not> running E (steps w'))"
  by (erule scheduler_loop.raw_induct[rotated 1])
     (auto split: if_splits prod.splits sum.splits)

lemma scheduler_loop_graceful:
  "scheduler_loop E tasks cur w = Some (Inr c, w') \<Longrightarrow> \<not> running E (steps w')"
  using scheduler_loop_graceful_aux by blast

lemma backend_quiet:
  "fault E (steps w) = None \<Longrightarrow>
     backend E c w = (Inr (), w\<lparr>steps := Suc (steps w), trace := trace w @ [c]\<rparr>)"
  by (simp add: backend_def effect_def)

lemma unblock_all_tasks_quiet:
  assumes "\<forall>k\<ge>steps w. fault E k = None"
  shows "unblock_all_tasks E tasks w =
           (Inr (), w\<lparr>steps := steps w + length tasks,
                       trace := trace w @ map (\<lambda>t. Unblock_websites (websites_of t)) tasks\<rparr>)"
  using assms
proof (induction tasks arbitrary: w)
  case Nil
  show ?case by simp
next
  case (Cons task tasks)
  have "fault E (steps w) = None"
    using Cons.prems by simp
  moreover have "\<forall>k\<ge>Suc (steps w). fault E k = None"
    using Cons.prems by simp
  ultimately show ?case
    using Cons.IH[of "w\<lparr>steps := Suc (steps w), trace := trace w @ [Unblock_websites (websites_of task)]\<rparr>"]
    by (simp add: backend_quiet)
qed

lemma registry_websites:
  "map (\<lambda>t. Unblock_websites (websites_of t)) (registry ts)
     = map (\<lambda>t. Unblock_websites (block_websites (blocking_info t))) ts"
proof -
  have "map (\<lambda>t. Unblock_websites (websites_of t)) (registry ts)
          = map (\<lambda>t. Unblock_websites (block_websites (blocking_info t))) (map snd (registry ts))"
    by (simp add: websites_of_def comp_def)
  then show ?thesis
    by (simp add: registry_def)
qed

text \<open>
  C1.  The claim holds for the two ways of ending the loop that line 111 provides for
  (\<open>cleanup_on_exit\<close> below), and fails for an exception that is not an instance of
  \<^verbatim>\<open>Exception\<close>: it passes the handler.  Here \<^verbatim>\<open>time.sleep\<close> is interrupted from the
  keyboard after the first iteration has blocked; the exception leaves \<^verbatim>\<open>main\<close> and
  \<^verbatim>\<open>unblock_websites\<close> has not been called.
\<close>

theorem keyboard_interrupt_skips_cleanup:
  "main interrupted_env [focus_task]
     = Some (Inl KeyboardInterrupt,
             \<lparr>steps = 6, trace = [Block_apps [''slack''], Block_websites [''youtube.com'']]\<rparr>)"
  by code_simp

text \<open>
  When the loop ends because \<^verbatim>\<open>RUNNING\<close> is read as false, or because an instance of
  \<^verbatim>\<open>Exception\<close> is raised inside the loop body, and nothing is raised during the cleanup,
  \<^verbatim>\<open>main\<close> returns, and the last calls it has made are \<^verbatim>\<open>unblock_websites\<close> with the
  website list of each task of the registry, one call per task in registry order,
  whether the task was ever active or not.
\<close>

theorem cleanup_on_exit:
  assumes loop: "scheduler_loop E (registry ts) None initial_world = Some (r, w)"
      and caught: "\<forall>e. r = Inl e \<longrightarrow> is_Exception e"
      and quiet: "\<forall>k\<ge>steps w. fault E k = None"
  shows "\<exists>w'. main E ts = Some (Inr (), w')
           \<and> trace w' = trace w @ map (\<lambda>t. Unblock_websites (block_websites (blocking_info t))) ts"
proof -
  let ?done = "w\<lparr>steps := steps w + length (registry ts),
                  trace := trace w @ map (\<lambda>t. Unblock_websites (websites_of t)) (registry ts)\<rparr>"
  have u: "unblock_all_tasks E (registry ts) w = (Inr (), ?done)"
    using quiet by (rule unblock_all_tasks_quiet)
  have "except_Exception E (registry ts) (try_block_end E (registry ts) (r, w)) = (Inr (), ?done)"
  proof (cases r)
    case (Inl e)
    with caught have "is_Exception e" by simp
    with Inl u show ?thesis
      by (simp add: try_block_end_def except_Exception_def)
  next
    case (Inr cur)
    with u show ?thesis
      by (simp add: try_block_end_def except_Exception_def)
  qed
  with loop have "main E ts = Some (Inr (), ?done)"
    by (simp add: main_def)
  then show ?thesis
    by (simp add: registry_websites)
qed

theorem cleanup_on_exit_witness:
  "\<exists>w'. main failing_env [focus_task, websites_only_task] = Some (Inr (), w')
      \<and> trace w' = [Block_apps [''slack''], Unblock_websites [''youtube.com''],
                     Unblock_websites [''x.com'']]"
proof -
  have loop: "scheduler_loop failing_env (registry [focus_task, websites_only_task]) None initial_world
                = Some (Inl (Exc ''SystemError''), \<lparr>steps = 4, trace = [Block_apps [''slack'']]\<rparr>)"
    by code_simp
  have caught: "\<forall>e. (Inl (Exc ''SystemError'') :: py_exc + task_obj option) = Inl e \<longrightarrow> is_Exception e"
    by auto
  have quiet: "\<forall>k\<ge>steps \<lparr>steps = 4, trace = [Block_apps [''slack'']]\<rparr>. fault failing_env k = None"
    by (simp add: failing_env_def)
  show ?thesis
    using cleanup_on_exit [OF loop caught quiet]
    by (simp add: focus_task_def websites_only_task_def)
qed

lemma registry_position:
  "a \<in> set (registry ts) \<Longrightarrow> fst a < length ts \<and> snd a = ts ! fst a"
  by (cases a) (simp add: registry_def in_set_enumerate_eq)

text \<open>
  C8, as stated, fails: \<^verbatim>\<open>Task\<close> defines no equality, so the comparison of line 92 is
  the identity of objects.  Two tasks of the registry with the same title and the same
  start are different objects; when the scheduler tracks the first and finds the second
  active, it takes the branch of a new task and blocks again.
\<close>

theorem same_title_and_start_not_equal:
  "title twin_task = title focus_task
   \<and> start_time twin_task = start_time focus_task
   \<and> \<not> same_object (0, twin_task) (1, focus_task)
   \<and> loop_body calm_env (registry [twin_task, focus_task]) (Some (0, twin_task)) initial_world
       = (Inr (Some (1, focus_task)),
          \<lparr>steps = 7, trace = [Block_apps [''slack''], Block_websites [''youtube.com'']]\<rparr>)"
  by code_simp

text \<open>
  C8, amended.  Two tasks of the registry are equal for the scheduler's comparison if and
  only if they are the same object, that is the same element of the registry.  Equal
  tasks have the same title and the same start; the converse does not hold.
\<close>

theorem task_equality_is_identity:
  assumes "a \<in> set (registry ts)" and "b \<in> set (registry ts)"
  shows "(same_object a b \<longleftrightarrow> a = b)
       \<and> (differs_from a (Some b) \<longleftrightarrow> a \<noteq> b)
       \<and> (same_object a b \<longrightarrow>
            title (snd a) = title (snd b) \<and> start_time (snd a) = start_time (snd b))"
proof -
  have "same_object a b \<longleftrightarrow> a = b"
    using registry_position[OF assms(1)] registry_position[OF assms(2)]
    by (auto simp: same_object_def prod_eq_iff)
  then show ?thesis
    by (auto simp: differs_from_def)
qed

theorem task_equality_is_identity_witness:
  "(0, twin_task) \<in> set (registry [twin_task, focus_task])
   \<and> (1, focus_task) \<in> set (registry [twin_task, focus_task])
   \<and> differs_from (0, twin_task) (Some (1, focus_task))
   \<and> \<not> differs_from (1, focus_task) (Some (1, focus_task))"
proof -
  have a: "(0, twin_task) \<in> set (registry [twin_task, focus_task])"
    by (simp add: registry_def)
  have b: "(1, focus_task) \<in> set (registry [twin_task, focus_task])"
    by (simp add: registry_def)
  show ?thesis
    using a b task_equality_is_identity [OF a b] task_equality_is_identity [OF b b]
    by simp
qed

text \<open>
  C9, as stated, fails in its last part.  With \<open>inner_task\<close> registered before
  \<open>focus_task\<close>: the first iteration tracks \<open>focus_task\<close>, the second finds \<open>inner_task\<close>
  and switches to it, the third finds \<open>focus_task\<close> again and tracks it again, and the
  fourth, after the window has closed, unblocks the websites of \<open>focus_task\<close> inside
  the loop, before any cleanup.
\<close>

theorem tracked_again_then_unblocked_in_loop:
  "loop_body nested_env (registry [inner_task, focus_task]) (Some (1, focus_task))
       \<lparr>steps = 7, trace = [Block_apps [''slack''], Block_websites [''youtube.com'']]\<rparr>
     = (Inr (Some (0, inner_task)),
        \<lparr>steps = 13, trace = [Block_apps [''slack''], Block_websites [''youtube.com''],
                              Block_apps [''discord''], Block_websites [''reddit.com'']]\<rparr>)
   \<and> scheduler_loop nested_env (registry [inner_task, focus_task]) None initial_world
     = Some (Inr None,
             \<lparr>steps = 27, trace = [Block_apps [''slack''], Block_websites [''youtube.com''],
                                   Block_apps [''discord''], Block_websites [''reddit.com''],
                                   Block_apps [''slack''], Block_websites [''youtube.com''],
                                   Unblock_websites [''youtube.com'']]\<rparr>)"
  by code_simp

text \<open>
  C9, amended.  When an iteration in which no call raises tracks \<open>a\<close> and finds another
  task \<open>b\<close> active, it calls \<^verbatim>\<open>block_apps\<close> and \<^verbatim>\<open>block_websites\<close> for \<open>b\<close>, calls no
  \<^verbatim>\<open>unblock_websites\<close>, and tracks \<open>b\<close>.  Whatever an iteration does, it calls
  \<^verbatim>\<open>unblock_websites\<close> only with the website list of the task it tracks when it begins.
  So the cleanup at the end of the loop calls \<^verbatim>\<open>unblock_websites\<close> with the website list of
  \<open>a\<close>, and before that an iteration does so only while it tracks a task with that
  website list: \<open>a\<close> itself, tracked again, or another task that names the same websites.
\<close>

theorem switch_without_unblock:
  assumes quiet: "\<forall>k. fault E k = None"
      and found: "get_active_task E tasks (w\<lparr>steps := Suc (steps w)\<rparr>) = (Inr (Some b), w1)"
      and other: "\<not> same_object b a"
      and known: "a \<in> set tasks"
  shows "(\<exists>w'. loop_body E tasks (Some a) w = (Inr (Some b), w')
            \<and> trace w' = trace w @ [Block_apps (apps_of b), Block_websites (websites_of b)])
       \<and> (\<forall>cur v r v'. loop_body E tasks cur v = (r, v') \<longrightarrow>
            (\<exists>new. trace v' = trace v @ new
               \<and> (\<forall>ws. Unblock_websites ws \<in> set new \<longrightarrow> (\<exists>c. cur = Some c \<and> ws = websites_of c))))
       \<and> (\<forall>v. \<exists>v' new. unblock_all_tasks E tasks v = (Inr (), v')
            \<and> trace v' = trace v @ new \<and> Unblock_websites (websites_of a) \<in> set new)"
proof (intro conjI allI impI)
  have t: "trace w1 = trace w"
    using get_active_task_trace[OF found] by simp
  have e: "\<And>v. effect E v = (Inr (), v\<lparr>steps := Suc (steps v)\<rparr>)"
    using quiet by (simp add: effect_def)
  have d: "differs_from b (Some a)"
    using other by (simp add: differs_from_def)
  show "\<exists>w'. loop_body E tasks (Some a) w = (Inr (Some b), w')
            \<and> trace w' = trace w @ [Block_apps (apps_of b), Block_websites (websites_of b)]"
    using found d t
    by (simp add: loop_body_def start_blocking_def bnd_def ret_def backend_def e)
next
  fix cur v r v'
  assume "loop_body E tasks cur v = (r, v')"
  with emits_only_loop_body[of cur E tasks]
  obtain new where "trace v' = trace v @ new" "list_all (tick_command cur) new"
    unfolding emits_only_def by blast
  then show "\<exists>new. trace v' = trace v @ new
               \<and> (\<forall>ws. Unblock_websites ws \<in> set new \<longrightarrow> (\<exists>c. cur = Some c \<and> ws = websites_of c))"
    by (auto simp: list_all_iff tick_command_def)
next
  fix v :: world
  have "\<forall>k\<ge>steps v. fault E k = None"
    using quiet by simp
  from unblock_all_tasks_quiet[OF this, of tasks] known
  show "\<exists>v' new. unblock_all_tasks E tasks v = (Inr (), v')
            \<and> trace v' = trace v @ new \<and> Unblock_websites (websites_of a) \<in> set new"
    by auto
qed

theorem switch_without_unblock_witness:
  "\<exists>w'. loop_body nested_env (registry [inner_task, focus_task]) (Some (1, focus_task))
            \<lparr>steps = 7, trace = [Block_apps [''slack''], Block_websites [''youtube.com'']]\<rparr>
          = (Inr (Some (0, inner_task)), w')
      \<and> trace w' = [Block_apps [''slack''], Block_websites [''youtube.com''],
                     Block_apps [''discord''], Block_websites [''reddit.com'']]"
proof -
  have quiet: "\<forall>k. fault nested_env k = None"
    by (simp add: nested_env_def)
  have found: "get_active_task nested_env (registry [inner_task, focus_task])
                 (\<lparr>steps = 7, trace = [Block_apps [''slack''], Block_websites [''youtube.com'']]\<rparr>
                    \<lparr>steps := Suc (steps \<lparr>steps = 7, trace = [Block_apps [''slack''], Block_websites [''youtube.com'']]\<rparr>)\<rparr>)
               = (Inr (Some (0, inner_task)),
                  \<lparr>steps = 9, trace = [Block_apps [''slack''], Block_websites [''youtube.com'']]\<rparr>)"
    by code_simp
  have other: "\<not> same_object (0, inner_task) (1, focus_task)"
    by (simp add: same_object_def)
  have known: "(1, focus_task) \<in> set (registry [inner_task, focus_task])"
    by (simp add: registry_def)
  show ?thesis
    using switch_without_unblock [OF quiet found other known]
    by (simp add: apps_of_def websites_of_def inner_task_def)
qed

section \<open>Empty values\<close>













end
